theory Spec2Isabelle
  imports Main
begin

section \<open>The IonQ sampler of cirq-ionq (cirq_ionq/sampler.py)\<close>

text \<open>
  \<^verbatim>\<open>Sampler\<close> is glue code over collaborators that live elsewhere: the sweep
  expansion and the parameter resolution of cirq, the job service of cirq-ionq, the job
  handles it returns and the result objects a job yields. Their values are opaque here
  (type variables), their operations are the fields of an environment record, and the
  remote side is a world \<open>'w\<close> that only those operations read and write. A Python
  exception is the \<open>Inl\<close> of a sum.
\<close>

subsection \<open>Data\<close>

text \<open>The three attributes \<^verbatim>\<open>_service\<close>, \<^verbatim>\<open>_target\<close>, \<^verbatim>\<open>_seed\<close>.\<close>

record ('svc, 'sd) sampler =
  service :: 'svc
  target :: "string option"
  seed :: 'sd

text \<open>\<^verbatim>\<open>Sampler.__init__\<close>: the three assignments.\<close>

definition Sampler :: "'svc \<Rightarrow> string option \<Rightarrow> 'sd \<Rightarrow> ('svc, 'sd) sampler" where
  "Sampler svc tgt sd = \<lparr>service = svc, target = tgt, seed = sd\<rparr>"

text \<open>
  One entry of the log of calls that leave the sampler, with the arguments as passed and
  what the call gave back (\<open>Inl\<close>: it raised). The keyword \<^verbatim>\<open>seed\<close> of
  \<^verbatim>\<open>to_cirq_result\<close> is \<open>None\<close> when the call does not pass it.
\<close>

datatype ('svc, 'c, 'j, 'r, 'p, 'sd, 'o, 'e) call =
    CreateJob 'svc 'c int "string option" "'e + 'j"
  | JobResults 'j "'e + 'r"
  | ToCirqResult 'r 'p "'sd option" "'e + 'o"

text \<open>The collaborators: what the sampler calls and does not define.\<close>

record ('sw, 'p, 'c, 'svc, 'j, 'r, 'sd, 'o, 'e, 'w) env =
  to_resolvers :: "'sw \<Rightarrow> 'e + 'p list"
  resolve_parameters :: "'c \<Rightarrow> 'p \<Rightarrow> 'e + 'c"
  create_job :: "'svc \<Rightarrow> 'c \<Rightarrow> int \<Rightarrow> string option \<Rightarrow> 'w \<Rightarrow> ('e + 'j) \<times> 'w"
  results :: "'j \<Rightarrow> 'w \<Rightarrow> ('e + 'r) \<times> 'w"
  is_QPUResult :: "'r \<Rightarrow> bool"
  to_cirq_result :: "'r \<Rightarrow> 'p \<Rightarrow> 'sd option \<Rightarrow> 'w \<Rightarrow> ('e + 'o) \<times> 'w"

text \<open>
  What a call of a method of the sampler threads through: the object itself, the world
  of the collaborators, and the log of the calls made so far.
\<close>

record ('svc, 'sd, 'w, 'ev) state =
  self :: "('svc, 'sd) sampler"
  world :: 'w
  calls :: "'ev list"

type_synonym ('svc, 'c, 'j, 'r, 'p, 'sd, 'o, 'e, 'w) exec =
  "('svc, 'sd, 'w, ('svc, 'c, 'j, 'r, 'p, 'sd, 'o, 'e) call) state"

subsection \<open>The calls that leave the sampler\<close>

text \<open>
  \<^verbatim>\<open>self._service.create_job(circuit=..., repetitions=repetitions, target=self._target)\<close>
\<close>

definition create_job_call ::
  "('sw, 'p, 'c, 'svc, 'j, 'r, 'sd, 'o, 'e, 'w) env \<Rightarrow> 'c \<Rightarrow> int \<Rightarrow>
   ('svc, 'c, 'j, 'r, 'p, 'sd, 'o, 'e, 'w) exec \<Rightarrow>
   ('e + 'j) \<times> ('svc, 'c, 'j, 'r, 'p, 'sd, 'o, 'e, 'w) exec" where
  "create_job_call env circuit repetitions st =
     (case create_job env (service (self st)) circuit repetitions (target (self st)) (world st) of
        (ret, w) \<Rightarrow>
          (ret, st\<lparr>world := w,
                   calls := calls st @
                     [CreateJob (service (self st)) circuit repetitions (target (self st)) ret]\<rparr>))"

text \<open>\<^verbatim>\<open>job.results()\<close>\<close>

definition results_call ::
  "('sw, 'p, 'c, 'svc, 'j, 'r, 'sd, 'o, 'e, 'w) env \<Rightarrow> 'j \<Rightarrow>
   ('svc, 'c, 'j, 'r, 'p, 'sd, 'o, 'e, 'w) exec \<Rightarrow>
   ('e + 'r) \<times> ('svc, 'c, 'j, 'r, 'p, 'sd, 'o, 'e, 'w) exec" where
  "results_call env job st =
     (case results env job (world st) of
        (ret, w) \<Rightarrow> (ret, st\<lparr>world := w, calls := calls st @ [JobResults job ret]\<rparr>))"

text \<open>\<^verbatim>\<open>result.to_cirq_result(params=params)\<close>, with \<^verbatim>\<open>seed=...\<close> or without.\<close>

definition to_cirq_result_call ::
  "('sw, 'p, 'c, 'svc, 'j, 'r, 'sd, 'o, 'e, 'w) env \<Rightarrow> 'r \<Rightarrow> 'p \<Rightarrow> 'sd option \<Rightarrow>
   ('svc, 'c, 'j, 'r, 'p, 'sd, 'o, 'e, 'w) exec \<Rightarrow>
   ('e + 'o) \<times> ('svc, 'c, 'j, 'r, 'p, 'sd, 'o, 'e, 'w) exec" where
  "to_cirq_result_call env result params seed_kw st =
     (case to_cirq_result env result params seed_kw (world st) of
        (ret, w) \<Rightarrow>
          (ret, st\<lparr>world := w, calls := calls st @ [ToCirqResult result params seed_kw ret]\<rparr>))"

subsection \<open>\<^verbatim>\<open>Sampler.run_sweep\<close>\<close>

text \<open>
  A list comprehension \<^verbatim>\<open>[f(x) for x in xs]\<close> whose body has effects and may raise:
  the elements are evaluated from left to right, and the first exception ends it.
\<close>

fun list_comp ::
  "('a \<Rightarrow> 's \<Rightarrow> ('e + 'b) \<times> 's) \<Rightarrow> 'a list \<Rightarrow> 's \<Rightarrow> ('e + 'b list) \<times> 's" where
  "list_comp f [] st = (Inr [], st)"
| "list_comp f (x # xs) st =
     (case f x st of
        (Inl e, st1) \<Rightarrow> (Inl e, st1)
      | (Inr y, st1) \<Rightarrow>
          (case list_comp f xs st1 of
             (Inl e, st2) \<Rightarrow> (Inl e, st2)
           | (Inr ys, st2) \<Rightarrow> (Inr (y # ys), st2)))"

text \<open>
  The element of the comprehension of line 81: resolve the parameters of the program
  (an argument, so evaluated first), then create the job.
\<close>

definition submit ::
  "('sw, 'p, 'c, 'svc, 'j, 'r, 'sd, 'o, 'e, 'w) env \<Rightarrow> 'c \<Rightarrow> int \<Rightarrow> 'p \<Rightarrow>
   ('svc, 'c, 'j, 'r, 'p, 'sd, 'o, 'e, 'w) exec \<Rightarrow>
   ('e + 'j) \<times> ('svc, 'c, 'j, 'r, 'p, 'sd, 'o, 'e, 'w) exec" where
  "submit env program repetitions resolver st =
     (case resolve_parameters env program resolver of
        Inl e \<Rightarrow> (Inl e, st)
      | Inr circuit \<Rightarrow> create_job_call env circuit repetitions st)"

text \<open>The body of the loop of line 91, up to the \<^verbatim>\<open>append\<close>.\<close>

definition convert ::
  "('sw, 'p, 'c, 'svc, 'j, 'r, 'sd, 'o, 'e, 'w) env \<Rightarrow> 'r \<times> 'p \<Rightarrow>
   ('svc, 'c, 'j, 'r, 'p, 'sd, 'o, 'e, 'w) exec \<Rightarrow>
   ('e + 'o) \<times> ('svc, 'c, 'j, 'r, 'p, 'sd, 'o, 'e, 'w) exec" where
  "convert env rp st =
     (case rp of (result, params) \<Rightarrow>
        if is_QPUResult env result
        then to_cirq_result_call env result params None st
        else to_cirq_result_call env result params (Some (seed (self st))) st)"

text \<open>The loop of line 91 over the zipped pairs, appending to \<^verbatim>\<open>cirq_results\<close>.\<close>

fun convert_loop ::
  "('sw, 'p, 'c, 'svc, 'j, 'r, 'sd, 'o, 'e, 'w) env \<Rightarrow> 'o list \<Rightarrow> ('r \<times> 'p) list \<Rightarrow>
   ('svc, 'c, 'j, 'r, 'p, 'sd, 'o, 'e, 'w) exec \<Rightarrow>
   ('e + 'o list) \<times> ('svc, 'c, 'j, 'r, 'p, 'sd, 'o, 'e, 'w) exec" where
  "convert_loop env cirq_results [] st = (Inr cirq_results, st)"
| "convert_loop env cirq_results (rp # rest) st =
     (case convert env rp st of
        (Inl e, st1) \<Rightarrow> (Inl e, st1)
      | (Inr r, st1) \<Rightarrow> convert_loop env (cirq_results @ [r]) rest st1)"

definition run_sweep ::
  "('sw, 'p, 'c, 'svc, 'j, 'r, 'sd, 'o, 'e, 'w) env \<Rightarrow> 'c \<Rightarrow> 'sw \<Rightarrow> int \<Rightarrow>
   ('svc, 'c, 'j, 'r, 'p, 'sd, 'o, 'e, 'w) exec \<Rightarrow>
   ('e + 'o list) \<times> ('svc, 'c, 'j, 'r, 'p, 'sd, 'o, 'e, 'w) exec" where
  "run_sweep env program params repetitions st =
     (case to_resolvers env params of
        Inl e \<Rightarrow> (Inl e, st)
      | Inr resolvers \<Rightarrow>
          (case list_comp (submit env program repetitions) resolvers st of
             (Inl e, st1) \<Rightarrow> (Inl e, st1)
           | (Inr jobs, st1) \<Rightarrow>
               (case list_comp (results_call env) jobs st1 of
                  (Inl e, st2) \<Rightarrow> (Inl e, st2)
                | (Inr job_results, st2) \<Rightarrow>
                    convert_loop env [] (zip job_results resolvers) st2)))"

subsection \<open>Reading the log\<close>

text \<open>The exception a logged call raised, if it raised.\<close>

fun raised :: "('svc, 'c, 'j, 'r, 'p, 'sd, 'o, 'e) call \<Rightarrow> 'e option" where
  "raised (CreateJob svc c n t ret) = (case ret of Inl e \<Rightarrow> Some e | Inr j \<Rightarrow> None)"
| "raised (JobResults j ret) = (case ret of Inl e \<Rightarrow> Some e | Inr r \<Rightarrow> None)"
| "raised (ToCirqResult r p s ret) = (case ret of Inl e \<Rightarrow> Some e | Inr out \<Rightarrow> None)"

fun is_CreateJob :: "('svc, 'c, 'j, 'r, 'p, 'sd, 'o, 'e) call \<Rightarrow> bool" where
  "is_CreateJob (CreateJob svc c n t ret) = True"
| "is_CreateJob ev = False"


text \<open>The calls a run added to the log.\<close>

definition new_calls ::
  "('svc, 'sd, 'w, 'ev) state \<Rightarrow> ('svc, 'sd, 'w, 'ev) state \<Rightarrow> 'ev list" where
  "new_calls st st' = drop (length (calls st)) (calls st')"

text \<open>
  The entries a run leaves in the log when nothing raises: one \<^verbatim>\<open>create_job\<close> per
  circuit, one \<^verbatim>\<open>results\<close> per job, one \<^verbatim>\<open>to_cirq_result\<close> per pair of a
  result and its resolver, with the keyword \<^verbatim>\<open>seed\<close> that the branch taken passes.
\<close>

definition created ::
  "('svc, 'sd) sampler \<Rightarrow> int \<Rightarrow> 'c list \<Rightarrow> 'j list \<Rightarrow> ('svc, 'c, 'j, 'r, 'p, 'sd, 'o, 'e) call list" where
  "created s n circuits jobs =
     map2 (\<lambda>c j. CreateJob (service s) c n (target s) (Inr j)) circuits jobs"

definition fetched :: "'j list \<Rightarrow> 'r list \<Rightarrow> ('svc, 'c, 'j, 'r, 'p, 'sd, 'o, 'e) call list" where
  "fetched jobs job_results = map2 (\<lambda>j r. JobResults j (Inr r)) jobs job_results"

definition seed_kw ::
  "('sw, 'p, 'c, 'svc, 'j, 'r, 'sd, 'o, 'e, 'w) env \<Rightarrow> ('svc, 'sd) sampler \<Rightarrow> 'r \<Rightarrow> 'sd option" where
  "seed_kw env s result = (if is_QPUResult env result then None else Some (seed s))"

definition converted ::
  "('sw, 'p, 'c, 'svc, 'j, 'r, 'sd, 'o, 'e, 'w) env \<Rightarrow> ('svc, 'sd) sampler \<Rightarrow> ('r \<times> 'p) list \<Rightarrow>
   'o list \<Rightarrow> ('svc, 'c, 'j, 'r, 'p, 'sd, 'o, 'e) call list" where
  "converted env s pairs outs =
     map2 (\<lambda>rp out. ToCirqResult (fst rp) (snd rp) (seed_kw env s (fst rp)) (Inr out)) pairs outs"



subsection \<open>Parameter resolution of cirq\<close>

text \<open>
  Modelled from the spec: the circuit and the resolver of cirq, which are not among the
  sources here. A circuit has parameter slots; a slot holds a symbol or a value. A
  resolver is a mapping from symbolic parameter name to concrete value.
\<close>

datatype 'v slot = Symbol string | Val 'v

datatype 'v operation = Operation string "'v slot list" "nat list"

type_synonym 'v circuit = "'v operation list"

type_synonym 'v resolver = "string \<rightharpoonup> 'v"

text \<open>
  Modelled from the spec: the resolution of one parameter slot. A symbol that the
  resolver binds becomes its value; any other slot stays.
\<close>

fun resolve_slot :: "'v resolver \<Rightarrow> 'v slot \<Rightarrow> 'v slot" where
  "resolve_slot resolver (Symbol x) = (case resolver x of None \<Rightarrow> Symbol x | Some v \<Rightarrow> Val v)"
| "resolve_slot resolver (Val v) = Val v"

text \<open>Modelled from the spec: the resolution of the slots of one operation.\<close>

fun resolve_operation :: "'v resolver \<Rightarrow> 'v operation \<Rightarrow> 'v operation" where
  "resolve_operation resolver (Operation gate slots qubits) =
     Operation gate (map (resolve_slot resolver) slots) qubits"

text \<open>
  Modelled from the spec: \<^verbatim>\<open>cirq.resolve_parameters\<close>, which is not among the sources
  here: the parameter slots of the circuit are resolved via the resolver.
\<close>

definition cirq_resolve_parameters :: "'v circuit \<Rightarrow> 'v resolver \<Rightarrow> 'e + 'v circuit" where
  "cirq_resolve_parameters program resolver = Inr (map (resolve_operation resolver) program)"

subsection \<open>Example collaborators\<close>

text \<open>
  A small service: a sweepable is the list of its resolvers, a resolver and a circuit
  are numbers, the service numbers its jobs from 0 and refuses a job once \<open>quota\<close> jobs
  exist. Job 0 yields a QPU result, job 1 a simulator result, every later job a result
  of a third class. A conversion returns the job number, the resolver and the seed it
  was given.
\<close>

datatype result_class = QPUResult | SimulatorResult | OtherResult

definition class_of_job :: "nat \<Rightarrow> result_class" where
  "class_of_job j = (if j = 0 then QPUResult else if j = 1 then SimulatorResult else OtherResult)"

definition example_env ::
  "nat \<Rightarrow> (nat list, nat, nat, string, nat, result_class \<times> nat, int,
           nat \<times> nat \<times> int option, string, nat) env" where
  "example_env quota =
     \<lparr>to_resolvers = (\<lambda>sweep. Inr sweep),
      resolve_parameters = (\<lambda>c p. Inr (c + p)),
      create_job = (\<lambda>svc c n t w. if w < quota then (Inr w, Suc w) else (Inl ''quota'', w)),
      results = (\<lambda>j w. (Inr (class_of_job j, j), w)),
      is_QPUResult = (\<lambda>r. fst r = QPUResult),
      to_cirq_result = (\<lambda>r p kw w. (Inr (snd r, p, kw), w))\<rparr>"

definition example_state ::
  "(string, nat, nat, result_class \<times> nat, nat, int, nat \<times> nat \<times> int option, string, nat) exec" where
  "example_state = \<lparr>self = Sampler ''ionq'' (Some ''qpu'') 11, world = 0, calls = []\<rparr>"

text \<open>
  A service for circuits with parameter slots: the sweepable \<open>None\<close> expands to the
  single empty resolver, the parameters are resolved as above, jobs are numbered from 0
  and every result is a QPU result.
\<close>

definition rx_circuit :: "int circuit" where
  "rx_circuit = [Operation ''rx'' [Symbol ''theta''] [0], Operation ''measure'' [] [0]]"

definition circuit_env ::
  "(int resolver list option, int resolver, int circuit, string, nat, nat, int, nat, string, nat) env" where
  "circuit_env =
     \<lparr>to_resolvers = (\<lambda>sweep. case sweep of None \<Rightarrow> Inr [Map.empty] | Some ps \<Rightarrow> Inr ps),
      resolve_parameters = cirq_resolve_parameters,
      create_job = (\<lambda>svc c n t w. (Inr w, Suc w)),
      results = (\<lambda>j w. (Inr j, w)),
      is_QPUResult = (\<lambda>r. True),
      to_cirq_result = (\<lambda>r p kw w. (Inr r, w))\<rparr>"

definition circuit_state ::
  "(string, int circuit, nat, nat, int resolver, int, nat, string, nat) exec" where
  "circuit_state = \<lparr>self = Sampler ''ionq'' None 0, world = 0, calls = []\<rparr>"

section \<open>The log of a run\<close>

subsection \<open>List comprehensions\<close>

lemma list_comp_Cons_Inr:
  "list_comp f (x # xs) st = (Inr ys, st') \<longleftrightarrow>
     (\<exists>y st1 ys'. f x st = (Inr y, st1) \<and> list_comp f xs st1 = (Inr ys', st') \<and> ys = y # ys')"
  by (auto split: prod.splits sum.splits)

lemma list_comp_Cons_Inl:
  "list_comp f (x # xs) st = (Inl e, st') \<longleftrightarrow>
     f x st = (Inl e, st') \<or>
     (\<exists>y st1. f x st = (Inr y, st1) \<and> list_comp f xs st1 = (Inl e, st'))"
  by (auto split: prod.splits sum.splits)

lemma list_comp_self:
  assumes "\<And>x st. self (snd (f x st)) = self st"
  shows "self (snd (list_comp f xs st)) = self st"
proof (induction xs arbitrary: st)
  case Nil
  show ?case by simp
next
  case (Cons x xs)
  obtain v st1 where f: "f x st = (v, st1)" by (cases "f x st")
  have s1: "self st1 = self st" using assms [of x st] f by simp
  obtain v2 st2 where r: "list_comp f xs st1 = (v2, st2)" by (cases "list_comp f xs st1")
  have s2: "self st2 = self st1" using Cons.IH [of st1] r by simp
  show ?case
  proof (cases v)
    case (Inl e)
    then show ?thesis using f s1 by simp
  next
    case (Inr y)
    then show ?thesis using f r s1 s2 by (cases v2) simp_all
  qed
qed

subsection \<open>One call\<close>

lemma create_job_call_effect:
  "create_job_call env c n st = (v, st') \<Longrightarrow>
     self st' = self st \<and>
     calls st' = calls st @ [CreateJob (service (self st)) c n (target (self st)) v]"
  by (auto simp: create_job_call_def split: prod.splits)

lemma results_call_effect:
  "results_call env j st = (v, st') \<Longrightarrow>
     self st' = self st \<and> calls st' = calls st @ [JobResults j v]"
  by (auto simp: results_call_def split: prod.splits)

lemma to_cirq_result_call_effect:
  "to_cirq_result_call env r p kw st = (v, st') \<Longrightarrow>
     self st' = self st \<and> calls st' = calls st @ [ToCirqResult r p kw v]"
  by (auto simp: to_cirq_result_call_def split: prod.splits)

lemma convert_effect:
  "convert env rp st = (v, st') \<Longrightarrow>
     self st' = self st \<and>
     calls st' = calls st @
       [ToCirqResult (fst rp) (snd rp)
          (if is_QPUResult env (fst rp) then None else Some (seed (self st))) v]"
  by (cases rp) (auto simp: convert_def dest: to_cirq_result_call_effect split: if_splits)

lemma submit_Inr:
  "submit env program n p st = (Inr j, st') \<Longrightarrow>
     \<exists>c. resolve_parameters env program p = Inr c \<and> self st' = self st \<and>
         calls st' = calls st @ [CreateJob (service (self st)) c n (target (self st)) (Inr j)]"
  by (auto simp: submit_def dest: create_job_call_effect split: sum.splits)

lemma submit_Inl:
  "submit env program n p st = (Inl e, st') \<Longrightarrow>
     self st' = self st \<and>
     (resolve_parameters env program p = Inl e \<and> calls st' = calls st \<or>
      (\<exists>c. resolve_parameters env program p = Inr c \<and>
         calls st' = calls st @ [CreateJob (service (self st)) c n (target (self st)) (Inl e)]))"
  by (auto simp: submit_def dest: create_job_call_effect split: sum.splits)

lemma submit_self: "self (snd (submit env program n p st)) = self st"
  by (cases "submit env program n p st"; cases "fst (submit env program n p st)")
     (auto dest: submit_Inr submit_Inl)

lemma results_call_self: "self (snd (results_call env j st)) = self st"
  by (simp add: results_call_def split: prod.splits)

lemma convert_self: "self (snd (convert env rp st)) = self st"
  by (cases "convert env rp st") (auto dest: convert_effect)

subsection \<open>The three passes\<close>

lemma list_comp_log_Inr:
  assumes step: "\<And>x st v st'. self st = s \<Longrightarrow> f x st = (v, st') \<Longrightarrow>
                   self st' = s \<and> calls st' = calls st @ [mk x v]"
  shows "self st = s \<Longrightarrow> list_comp f xs st = (Inr ys, st') \<Longrightarrow>
         length ys = length xs \<and> calls st' = calls st @ map2 (\<lambda>x y. mk x (Inr y)) xs ys"
proof (induction xs arbitrary: st ys)
  case Nil
  then show ?case by simp
next
  case (Cons x xs)
  from Cons.prems(2) obtain y st1 ys' where
    f: "f x st = (Inr y, st1)" and r: "list_comp f xs st1 = (Inr ys', st')" and ys: "ys = y # ys'"
    unfolding list_comp_Cons_Inr by (elim exE conjE)
  from step [OF Cons.prems(1) f] have s1: "self st1 = s"
    and c1: "calls st1 = calls st @ [mk x (Inr y)]" by simp_all
  from Cons.IH [OF s1 r] have "length ys' = length xs"
    "calls st' = calls st1 @ map2 (\<lambda>x y. mk x (Inr y)) xs ys'" by simp_all
  then show ?case unfolding ys using c1 by simp
qed

lemma list_comp_log_Inl:
  assumes step: "\<And>x st v st'. self st = s \<Longrightarrow> f x st = (v, st') \<Longrightarrow>
                   self st' = s \<and> calls st' = calls st @ [mk x v]"
  shows "self st = s \<Longrightarrow> list_comp f xs st = (Inl e, st') \<Longrightarrow>
         \<exists>pre x post ys. xs = pre @ x # post \<and> length ys = length pre \<and>
           calls st' = calls st @ map2 (\<lambda>x y. mk x (Inr y)) pre ys @ [mk x (Inl e)]"
proof (induction xs arbitrary: st)
  case Nil
  then show ?case by simp
next
  case (Cons x xs)
  from Cons.prems(2) consider
    (here) "f x st = (Inl e, st')"
  | (later) y st1 where "f x st = (Inr y, st1)" "list_comp f xs st1 = (Inl e, st')"
    unfolding list_comp_Cons_Inl by (elim disjE exE conjE)
  then show ?case
  proof cases
    case here
    from step [OF Cons.prems(1) here] have c0: "calls st' = calls st @ [mk x (Inl e)]" by simp
    show ?thesis
      apply (rule exI [where x = "[]"])
      apply (rule exI [where x = x])
      apply (rule exI [where x = xs])
      apply (rule exI [where x = "[]"])
      using c0 by simp
  next
    case later
    from step [OF Cons.prems(1) later(1)] have s1: "self st1 = s"
      and c1: "calls st1 = calls st @ [mk x (Inr y)]" by simp_all
    from Cons.IH [OF s1 later(2)] obtain pre z post ys where
      d: "xs = pre @ z # post" "length ys = length pre"
         "calls st' = calls st1 @ map2 (\<lambda>x y. mk x (Inr y)) pre ys @ [mk z (Inl e)]"
      by (elim exE conjE)
    show ?thesis
      apply (rule exI [where x = "x # pre"])
      apply (rule exI [where x = z])
      apply (rule exI [where x = post])
      apply (rule exI [where x = "y # ys"])
      using d c1 by simp
  qed
qed

lemma create_jobs_Inr:
  "self st = s \<Longrightarrow> list_comp (submit env program n) ps st = (Inr jobs, st') \<Longrightarrow>
     \<exists>circuits. map (resolve_parameters env program) ps = map Inr circuits \<and>
       length jobs = length ps \<and>
       calls st' = calls st @
         map2 (\<lambda>c j. CreateJob (service s) c n (target s) (Inr j)) circuits jobs"
proof (induction ps arbitrary: st jobs)
  case Nil
  then show ?case by simp
next
  case (Cons p ps)
  from Cons.prems(2) obtain j st1 jobs' where
    f: "submit env program n p st = (Inr j, st1)"
    and r: "list_comp (submit env program n) ps st1 = (Inr jobs', st')"
    and jobs: "jobs = j # jobs'"
    unfolding list_comp_Cons_Inr by (elim exE conjE)
  from submit_Inr [OF f] Cons.prems(1) obtain c where
    c: "resolve_parameters env program p = Inr c" and s1: "self st1 = s"
    and c1: "calls st1 = calls st @ [CreateJob (service s) c n (target s) (Inr j)]"
    by auto
  from Cons.IH [OF s1 r] obtain circuits where
    ih: "map (resolve_parameters env program) ps = map Inr circuits"
        "length jobs' = length ps"
        "calls st' = calls st1 @
           map2 (\<lambda>c j. CreateJob (service s) c n (target s) (Inr j)) circuits jobs'"
    by (elim exE conjE)
  show ?case
    apply (rule exI [where x = "c # circuits"])
    unfolding jobs using c c1 ih by simp
qed

lemma create_jobs_Inl:
  "self st = s \<Longrightarrow> list_comp (submit env program n) ps st = (Inl e, st') \<Longrightarrow>
     \<exists>pre p post circuits jobs. ps = pre @ p # post \<and>
       map (resolve_parameters env program) pre = map Inr circuits \<and>
       length jobs = length pre \<and>
       (resolve_parameters env program p = Inl e \<and>
        calls st' = calls st @
          map2 (\<lambda>c j. CreateJob (service s) c n (target s) (Inr j)) circuits jobs
        \<or> (\<exists>c. resolve_parameters env program p = Inr c \<and>
        calls st' = calls st @
          map2 (\<lambda>c j. CreateJob (service s) c n (target s) (Inr j)) circuits jobs @
          [CreateJob (service s) c n (target s) (Inl e)]))"
proof (induction ps arbitrary: st)
  case Nil
  then show ?case by simp
next
  case (Cons p ps)
  from Cons.prems(2) consider
    (here) "submit env program n p st = (Inl e, st')"
  | (later) j st1 where "submit env program n p st = (Inr j, st1)"
      "list_comp (submit env program n) ps st1 = (Inl e, st')"
    unfolding list_comp_Cons_Inl by (elim disjE exE conjE)
  then show ?case
  proof cases
    case here
    show ?thesis
      apply (rule exI [where x = "[]"])
      apply (rule exI [where x = p])
      apply (rule exI [where x = ps])
      apply (rule exI [where x = "[]"])
      apply (rule exI [where x = "[]"])
      using submit_Inl [OF here] Cons.prems(1) by auto
  next
    case later
    from submit_Inr [OF later(1)] Cons.prems(1) obtain c where
      c: "resolve_parameters env program p = Inr c" and s1: "self st1 = s"
      and c1: "calls st1 = calls st @ [CreateJob (service s) c n (target s) (Inr j)]"
      by auto
    from Cons.IH [OF s1 later(2)] obtain pre q post circuits jobs where
      d: "ps = pre @ q # post"
         "map (resolve_parameters env program) pre = map Inr circuits"
         "length jobs = length pre"
      and alt: "resolve_parameters env program q = Inl e \<and>
        calls st' = calls st1 @
          map2 (\<lambda>c j. CreateJob (service s) c n (target s) (Inr j)) circuits jobs
        \<or> (\<exists>c. resolve_parameters env program q = Inr c \<and>
        calls st' = calls st1 @
          map2 (\<lambda>c j. CreateJob (service s) c n (target s) (Inr j)) circuits jobs @
          [CreateJob (service s) c n (target s) (Inl e)])"
      by (elim exE conjE)
    show ?thesis
      apply (rule exI [where x = "p # pre"])
      apply (rule exI [where x = q])
      apply (rule exI [where x = post])
      apply (rule exI [where x = "c # circuits"])
      apply (rule exI [where x = "j # jobs"])
      using d c c1 alt by auto
  qed
qed

lemma convert_loop_list_comp:
  "convert_loop env acc xs st =
     (case list_comp (convert env) xs st of
        (Inl e, st') \<Rightarrow> (Inl e, st')
      | (Inr ys, st') \<Rightarrow> (Inr (acc @ ys), st'))"
proof (induction xs arbitrary: acc st)
  case Nil
  show ?case by simp
next
  case (Cons x xs)
  obtain v st1 where f: "convert env x st = (v, st1)" by (cases "convert env x st")
  show ?case
  proof (cases v)
    case (Inl e)
    then show ?thesis using f by simp
  next
    case (Inr y)
    obtain v2 st2 where r: "list_comp (convert env) xs st1 = (v2, st2)"
      by (cases "list_comp (convert env) xs st1")
    have "convert_loop env (acc @ [y]) xs st1 =
      (case (v2, st2) of (Inl e, st') \<Rightarrow> (Inl e, st') | (Inr ys, st') \<Rightarrow> (Inr ((acc @ [y]) @ ys), st'))"
      using Cons.IH [of "acc @ [y]" st1] r by simp
    then show ?thesis using f Inr r by (cases v2) simp_all
  qed
qed

lemma convert_step:
  "self st = s \<Longrightarrow> convert env rp st = (v, st') \<Longrightarrow>
     self st' = s \<and>
     calls st' = calls st @ [ToCirqResult (fst rp) (snd rp) (seed_kw env s (fst rp)) v]"
  using convert_effect [of env rp st v st'] by (simp add: seed_kw_def)

lemma results_step:
  "self st = s \<Longrightarrow> results_call env j st = (v, st') \<Longrightarrow>
     self st' = s \<and> calls st' = calls st @ [JobResults j v]"
  using results_call_effect [of env j st v st'] by simp

lemma fetch_Inr:
  "self st = s \<Longrightarrow> list_comp (results_call env) jobs st = (Inr rs, st') \<Longrightarrow>
     length rs = length jobs \<and> calls st' = calls st @ fetched jobs rs"
  unfolding fetched_def
  by (rule list_comp_log_Inr [where f = "results_call env" and mk = JobResults and s = s])
     (rule results_step)

lemma fetch_Inl:
  "self st = s \<Longrightarrow> list_comp (results_call env) jobs st = (Inl e, st') \<Longrightarrow>
     \<exists>pre j post rs. jobs = pre @ j # post \<and> length rs = length pre \<and>
       calls st' = calls st @ fetched pre rs @ [JobResults j (Inl e)]"
  unfolding fetched_def
  by (rule list_comp_log_Inl [where f = "results_call env" and mk = JobResults and s = s])
     (rule results_step)

lemma conversions_Inr:
  "self st = s \<Longrightarrow> list_comp (convert env) pairs st = (Inr outs, st') \<Longrightarrow>
     length outs = length pairs \<and> calls st' = calls st @ converted env s pairs outs"
  unfolding converted_def
  by (rule list_comp_log_Inr [where f = "convert env" and s = s
        and mk = "\<lambda>rp. ToCirqResult (fst rp) (snd rp) (seed_kw env s (fst rp))"])
     (rule convert_step)

lemma conversions_Inl:
  "self st = s \<Longrightarrow> list_comp (convert env) pairs st = (Inl e, st') \<Longrightarrow>
     \<exists>pre rp post outs. pairs = pre @ rp # post \<and> length outs = length pre \<and>
       calls st' = calls st @ converted env s pre outs @
         [ToCirqResult (fst rp) (snd rp) (seed_kw env s (fst rp)) (Inl e)]"
  unfolding converted_def
  by (rule list_comp_log_Inl [where f = "convert env" and s = s
        and mk = "\<lambda>rp. ToCirqResult (fst rp) (snd rp) (seed_kw env s (fst rp))"])
     (rule convert_step)

lemma create_jobs_self: "self (snd (list_comp (submit env program n) ps st)) = self st"
  by (rule list_comp_self) (rule submit_self)

lemma fetch_self: "self (snd (list_comp (results_call env) jobs st)) = self st"
  by (rule list_comp_self) (rule results_call_self)

lemma conversions_self: "self (snd (list_comp (convert env) pairs st)) = self st"
  by (rule list_comp_self) (rule convert_self)

subsection \<open>The whole run\<close>

lemma new_calls_append: "calls st' = calls st @ evs \<Longrightarrow> new_calls st st' = evs"
  by (simp add: new_calls_def)

lemma run_sweep_Inr:
  assumes run: "run_sweep env program params n st = (Inr out, st')"
  obtains ps circuits jobs rs where
    "to_resolvers env params = Inr ps"
    "map (resolve_parameters env program) ps = map Inr circuits"
    "length jobs = length ps" "length rs = length ps" "length out = length ps"
    "new_calls st st' =
       created (self st) n circuits jobs @ fetched jobs rs @
       converted env (self st) (zip rs ps) out"
proof -
  from run obtain ps where ps: "to_resolvers env params = Inr ps"
    by (cases "to_resolvers env params") (auto simp: run_sweep_def)
  obtain v1 st1 where p1: "list_comp (submit env program n) ps st = (v1, st1)"
    by (cases "list_comp (submit env program n) ps st")
  from run ps p1 obtain jobs where v1: "v1 = Inr jobs"
    by (cases v1) (auto simp: run_sweep_def)
  obtain v2 st2 where p2: "list_comp (results_call env) jobs st1 = (v2, st2)"
    by (cases "list_comp (results_call env) jobs st1")
  from run ps p1 v1 p2 obtain rs where v2: "v2 = Inr rs"
    by (cases v2) (auto simp: run_sweep_def)
  from run ps p1 v1 p2 v2 have p3': "convert_loop env [] (zip rs ps) st2 = (Inr out, st')"
    by (simp add: run_sweep_def)
  obtain v3 st3 where p3: "list_comp (convert env) (zip rs ps) st2 = (v3, st3)"
    by (cases "list_comp (convert env) (zip rs ps) st2")
  from p3' p3 have v3: "v3 = Inr out" and st3: "st3 = st'"
    by (cases v3; simp add: convert_loop_list_comp)+
  have s1: "self st1 = self st" using create_jobs_self [of env program n ps st] p1 by simp
  have s2: "self st2 = self st" using fetch_self [of env jobs st1] p2 s1 by simp
  from create_jobs_Inr [OF refl p1 [unfolded v1]] obtain circuits where
    c: "map (resolve_parameters env program) ps = map Inr circuits" "length jobs = length ps"
       "calls st1 = calls st @ created (self st) n circuits jobs"
    unfolding created_def by (elim exE conjE)
  from fetch_Inr [OF s1 p2 [unfolded v2]] have
    f: "length rs = length jobs" "calls st2 = calls st1 @ fetched jobs rs" by simp_all
  from conversions_Inr [OF s2 p3 [unfolded v3 st3]] have
    t: "length out = length (zip rs ps)"
       "calls st' = calls st2 @ converted env (self st) (zip rs ps) out" by simp_all
  have "new_calls st st' =
       created (self st) n circuits jobs @ fetched jobs rs @
       converted env (self st) (zip rs ps) out"
    using c(3) f(2) t(2) by (simp add: new_calls_def)
  moreover have "length rs = length ps" "length out = length ps" using c(2) f(1) t(1) by simp_all
  ultimately show thesis using that [OF ps c(1) c(2)] by blast
qed

lemma run_sweep_Inl:
  assumes run: "run_sweep env program params n st = (Inl e, st')"
  obtains
    (sweep) "to_resolvers env params = Inl e" "st' = st"
  | (resolve) ps pre p post circuits jobs where
      "to_resolvers env params = Inr ps" "ps = pre @ p # post"
      "map (resolve_parameters env program) pre = map Inr circuits"
      "length jobs = length pre"
      "resolve_parameters env program p = Inl e"
      "new_calls st st' = created (self st) n circuits jobs"
  | (create) ps pre p post circuits jobs c where
      "to_resolvers env params = Inr ps" "ps = pre @ p # post"
      "map (resolve_parameters env program) pre = map Inr circuits"
      "length jobs = length pre"
      "resolve_parameters env program p = Inr c"
      "new_calls st st' = created (self st) n circuits jobs @
         [CreateJob (service (self st)) c n (target (self st)) (Inl e)]"
  | (fetch) ps circuits jobs pre j post rs where
      "to_resolvers env params = Inr ps"
      "map (resolve_parameters env program) ps = map Inr circuits"
      "length jobs = length ps" "jobs = pre @ j # post" "length rs = length pre"
      "new_calls st st' = created (self st) n circuits jobs @ fetched pre rs @
         [JobResults j (Inl e)]"
  | (conversion) ps circuits jobs rs pre rp post outs where
      "to_resolvers env params = Inr ps"
      "map (resolve_parameters env program) ps = map Inr circuits"
      "length jobs = length ps" "length rs = length ps"
      "zip rs ps = pre @ rp # post" "length outs = length pre"
      "new_calls st st' = created (self st) n circuits jobs @ fetched jobs rs @
         converted env (self st) pre outs @
         [ToCirqResult (fst rp) (snd rp) (seed_kw env (self st) (fst rp)) (Inl e)]"
proof (cases "to_resolvers env params")
  case (Inl e')
  with run have "e' = e" "st' = st" by (simp_all add: run_sweep_def)
  with Inl sweep show thesis by simp
next
  case (Inr ps)
  obtain v1 st1 where p1: "list_comp (submit env program n) ps st = (v1, st1)"
    by (cases "list_comp (submit env program n) ps st")
  show thesis
  proof (cases v1)
    case (Inl e1)
    with run Inr p1 have "e1 = e" "st1 = st'" by (simp_all add: run_sweep_def)
    with p1 Inl have p1': "list_comp (submit env program n) ps st = (Inl e, st')" by simp
    from create_jobs_Inl [OF refl p1'] obtain pre p post circuits jobs where
      d: "ps = pre @ p # post" "map (resolve_parameters env program) pre = map Inr circuits"
         "length jobs = length pre"
      and alt: "resolve_parameters env program p = Inl e \<and>
          calls st' = calls st @ created (self st) n circuits jobs
        \<or> (\<exists>c. resolve_parameters env program p = Inr c \<and>
          calls st' = calls st @ created (self st) n circuits jobs @
            [CreateJob (service (self st)) c n (target (self st)) (Inl e)])"
      unfolding created_def by (elim exE conjE)
    from alt show thesis
    proof (elim disjE exE conjE)
      assume a: "resolve_parameters env program p = Inl e"
        "calls st' = calls st @ created (self st) n circuits jobs"
      show thesis
        by (rule resolve [OF Inr d a(1) new_calls_append [OF a(2)]])
    next
      fix c
      assume a: "resolve_parameters env program p = Inr c"
        "calls st' = calls st @ created (self st) n circuits jobs @
            [CreateJob (service (self st)) c n (target (self st)) (Inl e)]"
      show thesis
        by (rule create [OF Inr d a(1) new_calls_append [OF a(2)]])
    qed
  next
    case jobs: (Inr jobs)
    have s1: "self st1 = self st" using create_jobs_self [of env program n ps st] p1 by simp
    from create_jobs_Inr [OF refl p1 [unfolded jobs]] obtain circuits where
      c: "map (resolve_parameters env program) ps = map Inr circuits" "length jobs = length ps"
         "calls st1 = calls st @ created (self st) n circuits jobs"
      unfolding created_def by (elim exE conjE)
    obtain v2 st2 where p2: "list_comp (results_call env) jobs st1 = (v2, st2)"
      by (cases "list_comp (results_call env) jobs st1")
    show thesis
    proof (cases v2)
      case (Inl e2)
      with run Inr p1 jobs p2 have "e2 = e" "st2 = st'" by (simp_all add: run_sweep_def)
      with p2 Inl have p2': "list_comp (results_call env) jobs st1 = (Inl e, st')" by simp
      from fetch_Inl [OF s1 p2'] obtain pre j post rs where
        d: "jobs = pre @ j # post" "length rs = length pre"
        and l: "calls st' = calls st1 @ fetched pre rs @ [JobResults j (Inl e)]"
        by (elim exE conjE)
      have "new_calls st st' = created (self st) n circuits jobs @ fetched pre rs @
         [JobResults j (Inl e)]"
        using c(3) l by (simp add: new_calls_def)
      from fetch [OF Inr c(1) c(2) d this] show thesis .
    next
      case rs: (Inr rs)
      have s2: "self st2 = self st" using fetch_self [of env jobs st1] p2 s1 by simp
      from fetch_Inr [OF s1 p2 [unfolded rs]] have
        f: "length rs = length jobs" "calls st2 = calls st1 @ fetched jobs rs" by simp_all
      from run Inr p1 jobs p2 rs have p3': "convert_loop env [] (zip rs ps) st2 = (Inl e, st')"
        by (simp add: run_sweep_def)
      obtain v3 st3 where p3: "list_comp (convert env) (zip rs ps) st2 = (v3, st3)"
        by (cases "list_comp (convert env) (zip rs ps) st2")
      from p3' p3 have "v3 = Inl e" "st3 = st'"
        by (cases v3; simp add: convert_loop_list_comp)+
      with p3 have p3'': "list_comp (convert env) (zip rs ps) st2 = (Inl e, st')" by simp
      from conversions_Inl [OF s2 p3''] obtain pre rp post outs where
        d: "zip rs ps = pre @ rp # post" "length outs = length pre"
        and l: "calls st' = calls st2 @ converted env (self st) pre outs @
           [ToCirqResult (fst rp) (snd rp) (seed_kw env (self st) (fst rp)) (Inl e)]"
        by (elim exE conjE)
      have n: "new_calls st st' = created (self st) n circuits jobs @ fetched jobs rs @
         converted env (self st) pre outs @
         [ToCirqResult (fst rp) (snd rp) (seed_kw env (self st) (fst rp)) (Inl e)]"
        using c(3) f(2) l by (simp add: new_calls_def)
      have lr: "length rs = length ps" using f(1) c(2) by simp
      from conversion [OF Inr c(1) c(2) lr d n] show thesis .
    qed
  qed
qed

subsection \<open>What the logged calls are\<close>

lemma raised_created: "ev \<in> set (created s n circuits jobs) \<Longrightarrow> raised ev = None"
  by (auto simp: created_def)

lemma raised_fetched: "ev \<in> set (fetched jobs rs) \<Longrightarrow> raised ev = None"
  by (auto simp: fetched_def)

lemma raised_converted: "ev \<in> set (converted env s pairs outs) \<Longrightarrow> raised ev = None"
  by (auto simp: converted_def)

lemma filter_CreateJob_created:
  "filter is_CreateJob (created s n circuits jobs) = created s n circuits jobs"
  by (rule filter_True) (auto simp: created_def)

lemma filter_CreateJob_fetched: "filter is_CreateJob (fetched jobs rs) = []"
  by (rule filter_False) (auto simp: fetched_def)

lemma filter_CreateJob_converted: "filter is_CreateJob (converted env s pairs outs) = []"
  by (rule filter_False) (auto simp: converted_def)

lemma convert_loop_self: "self (snd (convert_loop env acc pairs st)) = self st"
proof -
  obtain v st' where r: "list_comp (convert env) pairs st = (v, st')"
    by (cases "list_comp (convert env) pairs st")
  have "self st' = self st" using conversions_self [of env pairs st] r by simp
  then show ?thesis using r by (cases v) (simp_all add: convert_loop_list_comp)
qed

lemma run_sweep_self: "self (snd (run_sweep env program params n st)) = self st"
proof (cases "to_resolvers env params")
  case (Inl e)
  then show ?thesis by (simp add: run_sweep_def)
next
  case (Inr ps)
  obtain v1 st1 where p1: "list_comp (submit env program n) ps st = (v1, st1)"
    by (cases "list_comp (submit env program n) ps st")
  have s1: "self st1 = self st" using create_jobs_self [of env program n ps st] p1 by simp
  show ?thesis
  proof (cases v1)
    case (Inl e)
    with Inr p1 s1 show ?thesis by (simp add: run_sweep_def)
  next
    case jobs: (Inr jobs)
    obtain v2 st2 where p2: "list_comp (results_call env) jobs st1 = (v2, st2)"
      by (cases "list_comp (results_call env) jobs st1")
    have s2: "self st2 = self st" using fetch_self [of env jobs st1] p2 s1 by simp
    show ?thesis
    proof (cases v2)
      case (Inl e)
      with Inr p1 jobs p2 s2 show ?thesis by (simp add: run_sweep_def)
    next
      case rs: (Inr rs)
      with Inr p1 jobs p2 s2 show ?thesis by (simp add: run_sweep_def convert_loop_self)
    qed
  qed
qed

subsection \<open>Two runs of the example service\<close>

lemmas run_defs = run_sweep_def submit_def create_job_call_def results_call_def
  to_cirq_result_call_def convert_def

lemmas example_defs = example_env_def example_state_def class_of_job_def Sampler_def

lemma example_run: "run_sweep (example_env 10) 7 [1, 2, 3] 4 example_state =
  (Inr [(0, 1, None), (1, 2, Some 11), (2, 3, Some 11)],
   \<lparr>self = \<lparr>service = ''ionq'', target = Some ''qpu'', seed = 11\<rparr>, world = 3,
      calls = [CreateJob ''ionq'' 8 4 (Some ''qpu'') (Inr 0),
               CreateJob ''ionq'' 9 4 (Some ''qpu'') (Inr 1),
               CreateJob ''ionq'' 10 4 (Some ''qpu'') (Inr 2),
               JobResults 0 (Inr (QPUResult, 0)),
               JobResults 1 (Inr (SimulatorResult, 1)),
               JobResults 2 (Inr (OtherResult, 2)),
               ToCirqResult (QPUResult, 0) 1 None (Inr (0, 1, None)),
               ToCirqResult (SimulatorResult, 1) 2 (Some 11) (Inr (1, 2, Some 11)),
               ToCirqResult (OtherResult, 2) 3 (Some 11) (Inr (2, 3, Some 11))]\<rparr>)"
  by (simp add: run_defs example_defs)

lemma example_run_quota: "run_sweep (example_env 1) 7 [1, 2, 3] 4 example_state =
  (Inl ''quota'',
   \<lparr>self = \<lparr>service = ''ionq'', target = Some ''qpu'', seed = 11\<rparr>, world = 1,
      calls = [CreateJob ''ionq'' 8 4 (Some ''qpu'') (Inr 0),
               CreateJob ''ionq'' 9 4 (Some ''qpu'') (Inl ''quota'')]\<rparr>)"
  by (simp add: run_defs example_defs)

subsection \<open>Jobs created and jobs awaited\<close>













lemma length_created:
  "length circuits = length jobs \<Longrightarrow> length (created s n circuits jobs) = length jobs"
  by (simp add: created_def)




lemma ToCirqResult_converted:
  "ToCirqResult r p kw ret \<in> set (converted env s pairs outs) \<Longrightarrow> kw = seed_kw env s r"
  by (auto simp: converted_def)

lemma ToCirqResult_created: "ToCirqResult r p kw ret \<notin> set (created s n circuits jobs)"
  by (auto simp: created_def)

lemma ToCirqResult_fetched: "ToCirqResult r p kw ret \<notin> set (fetched jobs rs)"
  by (auto simp: fetched_def)


subsection \<open>Results fetched and results converted\<close>

lemma JobResults_fetched: "JobResults j (Inr r) \<in> set (fetched jobs rs) \<Longrightarrow> r \<in> set rs"
  by (auto simp: fetched_def dest: set_zip_rightD)

lemma JobResults_created: "JobResults j ret \<notin> set (created s n circuits jobs)"
  by (auto simp: created_def)

lemma JobResults_converted: "JobResults j ret \<notin> set (converted env s pairs outs)"
  by (auto simp: converted_def)

lemma JobResults_logged:
  "JobResults j (Inr r) \<in>
     set (created s n circuits jobs @ fetched jobs' rs @ converted env s' pairs outs) \<Longrightarrow>
   r \<in> set rs"
  by (auto simp: JobResults_created JobResults_converted dest: JobResults_fetched)

lemma converted_member:
  "length rs = length ps \<Longrightarrow> length ps = length outs \<Longrightarrow> r \<in> set rs \<Longrightarrow>
     \<exists>p out. ToCirqResult r p (seed_kw env s r) (Inr out) \<in>
               set (before @ converted env s (zip rs ps) outs) \<and> out \<in> set outs"
  unfolding converted_def
  by (induction rs ps outs rule: list_induct3) auto

subsection \<open>A run with another seed\<close>

lemma list_comp_commute:
  assumes "\<And>x st. x \<in> set xs \<Longrightarrow> f x (u st) = (case f x st of (v, st') \<Rightarrow> (v, u st'))"
  shows "list_comp f xs (u st) = (case list_comp f xs st of (v, st') \<Rightarrow> (v, u st'))"
  using assms
proof (induction xs arbitrary: st)
  case Nil
  show ?case by simp
next
  case (Cons x xs)
  obtain v st1 where f: "f x st = (v, st1)" by (cases "f x st")
  have fu: "f x (u st) = (v, u st1)" using Cons.prems [of x st] f by simp
  show ?case
  proof (cases v)
    case (Inl e)
    with f fu show ?thesis by simp
  next
    case (Inr y)
    obtain v2 st2 where r: "list_comp f xs st1 = (v2, st2)" by (cases "list_comp f xs st1")
    have "list_comp f xs (u st1) = (case list_comp f xs st1 of (v, st') \<Rightarrow> (v, u st'))"
      by (rule Cons.IH) (simp add: Cons.prems)
    with r have ru: "list_comp f xs (u st1) = (v2, u st2)" by simp
    from f fu Inr r ru show ?thesis by (cases v2) simp_all
  qed
qed

lemma submit_reseed:
  "submit env program n p (st\<lparr>self := (self st)\<lparr>seed := sd\<rparr>\<rparr>) =
     (case submit env program n p st of
        (v, st') \<Rightarrow> (v, st'\<lparr>self := (self st')\<lparr>seed := sd\<rparr>\<rparr>))"
  by (simp add: submit_def create_job_call_def split: sum.splits prod.splits)

lemma results_call_reseed:
  "results_call env j (st\<lparr>self := (self st)\<lparr>seed := sd\<rparr>\<rparr>) =
     (case results_call env j st of
        (v, st') \<Rightarrow> (v, st'\<lparr>self := (self st')\<lparr>seed := sd\<rparr>\<rparr>))"
  by (simp add: results_call_def split: prod.splits)

lemma convert_reseed:
  "is_QPUResult env (fst rp) \<Longrightarrow>
   convert env rp (st\<lparr>self := (self st)\<lparr>seed := sd\<rparr>\<rparr>) =
     (case convert env rp st of
        (v, st') \<Rightarrow> (v, st'\<lparr>self := (self st')\<lparr>seed := sd\<rparr>\<rparr>))"
  by (cases rp) (simp add: convert_def to_cirq_result_call_def split: prod.splits)

lemma convert_loop_reseed:
  assumes "\<forall>rp \<in> set pairs. is_QPUResult env (fst rp)"
  shows "convert_loop env acc pairs (st\<lparr>self := (self st)\<lparr>seed := sd\<rparr>\<rparr>) =
     (case convert_loop env acc pairs st of
        (v, st') \<Rightarrow> (v, st'\<lparr>self := (self st')\<lparr>seed := sd\<rparr>\<rparr>))"
proof -
  have "list_comp (convert env) pairs (st\<lparr>self := (self st)\<lparr>seed := sd\<rparr>\<rparr>) =
     (case list_comp (convert env) pairs st of
        (v, st') \<Rightarrow> (v, st'\<lparr>self := (self st')\<lparr>seed := sd\<rparr>\<rparr>))"
    by (rule list_comp_commute [where u = "\<lambda>st. st\<lparr>self := (self st)\<lparr>seed := sd\<rparr>\<rparr>"])
       (simp add: convert_reseed assms)
  then show ?thesis
    by (simp add: convert_loop_list_comp split: prod.splits sum.splits)
qed

lemma convert_loop_calls:
  "\<exists>evs. calls (snd (convert_loop env acc pairs st)) = calls st @ evs"
proof -
  obtain v st' where r: "list_comp (convert env) pairs st = (v, st')"
    by (cases "list_comp (convert env) pairs st")
  show ?thesis
  proof (cases v)
    case (Inl e)
    from conversions_Inl [OF refl r [unfolded Inl]] r Inl show ?thesis
      by (auto simp: convert_loop_list_comp)
  next
    case (Inr outs)
    from conversions_Inr [OF refl r [unfolded Inr]] r Inr show ?thesis
      by (auto simp: convert_loop_list_comp)
  qed
qed

lemma fetched_member:
  "length rs = length jobs \<Longrightarrow> r \<in> set rs \<Longrightarrow>
     \<exists>j. JobResults j (Inr r) \<in> set (before @ fetched jobs rs @ after)"
  unfolding fetched_def by (induction rs jobs rule: list_induct2) auto

lemma run_sweep_reseed:
  assumes run: "run_sweep env program params n st = (v, st')"
    and qpu: "\<forall>ev \<in> set (new_calls st st'). \<forall>j r. ev = JobResults j (Inr r) \<longrightarrow> is_QPUResult env r"
  shows "run_sweep env program params n (st\<lparr>self := (self st)\<lparr>seed := sd\<rparr>\<rparr>) =
           (v, st'\<lparr>self := (self st')\<lparr>seed := sd\<rparr>\<rparr>)"
proof (cases "to_resolvers env params")
  case (Inl e)
  with run show ?thesis by (auto simp: run_sweep_def)
next
  case (Inr ps)
  let ?u = "\<lambda>st. st\<lparr>self := (self st)\<lparr>seed := sd\<rparr>\<rparr>"
  obtain v1 st1 where p1: "list_comp (submit env program n) ps st = (v1, st1)"
    by (cases "list_comp (submit env program n) ps st")
  have "list_comp (submit env program n) ps (?u st) =
      (case list_comp (submit env program n) ps st of (v, st') \<Rightarrow> (v, ?u st'))"
    by (rule list_comp_commute) (rule submit_reseed)
  with p1 have p1u: "list_comp (submit env program n) ps (?u st) = (v1, ?u st1)" by simp
  show ?thesis
  proof (cases v1)
    case (Inl e)
    with run Inr p1 p1u show ?thesis by (auto simp: run_sweep_def)
  next
    case jobs: (Inr jobs)
    obtain v2 st2 where p2: "list_comp (results_call env) jobs st1 = (v2, st2)"
      by (cases "list_comp (results_call env) jobs st1")
    have "list_comp (results_call env) jobs (?u st1) =
        (case list_comp (results_call env) jobs st1 of (v, st') \<Rightarrow> (v, ?u st'))"
      by (rule list_comp_commute) (rule results_call_reseed)
    with p2 have p2u: "list_comp (results_call env) jobs (?u st1) = (v2, ?u st2)" by simp
    show ?thesis
    proof (cases v2)
      case (Inl e)
      with run Inr p1 p1u jobs p2 p2u show ?thesis by (auto simp: run_sweep_def)
    next
      case rs: (Inr rs)
      from run Inr p1 jobs p2 rs have p3: "convert_loop env [] (zip rs ps) st2 = (v, st')"
        by (simp add: run_sweep_def)
      have s1: "self st1 = self st" using create_jobs_self [of env program n ps st] p1 by simp
      from create_jobs_Inr [OF refl p1 [unfolded jobs]] obtain evs1 where
        c1: "calls st1 = calls st @ evs1" by blast
      from fetch_Inr [OF s1 p2 [unfolded rs]] have
        lr: "length rs = length jobs" and c2: "calls st2 = calls st1 @ fetched jobs rs"
        by simp_all
      from convert_loop_calls [of env "[]" "zip rs ps" st2] p3 obtain evs3 where
        c3: "calls st' = calls st2 @ evs3" by auto
      have log: "new_calls st st' = evs1 @ fetched jobs rs @ evs3"
        using c1 c2 c3 by (simp add: new_calls_def)
      have all: "\<forall>rp \<in> set (zip rs ps). is_QPUResult env (fst rp)"
      proof
        fix rp assume "rp \<in> set (zip rs ps)"
        then have "(fst rp, snd rp) \<in> set (zip rs ps)" by simp
        then have "fst rp \<in> set rs" by (rule set_zip_leftD)
        from fetched_member [OF lr this, of evs1 evs3] obtain j where
          "JobResults j (Inr (fst rp)) \<in> set (evs1 @ fetched jobs rs @ evs3)" ..
        with log have "JobResults j (Inr (fst rp)) \<in> set (new_calls st st')" by simp
        with qpu show "is_QPUResult env (fst rp)" by blast
      qed
      from convert_loop_reseed [OF all, where acc = "[]" and st = st2 and sd = sd] p3
      have "convert_loop env [] (zip rs ps) (?u st2) = (v, ?u st')" by simp
      with Inr p1u jobs p2u rs show ?thesis by (simp add: run_sweep_def)
    qed
  qed
qed

subsection \<open>The empty resolver\<close>

lemma resolve_slot_empty: "resolve_slot Map.empty s = s"
  by (cases s) simp_all

lemma resolve_operation_empty: "resolve_operation Map.empty operation = operation"
  by (cases operation) (simp add: resolve_slot_empty map_idI)

lemma cirq_resolve_parameters_empty: "cirq_resolve_parameters program Map.empty = Inr program"
  by (simp add: cirq_resolve_parameters_def resolve_operation_empty map_idI)

section \<open>Properties of \<^verbatim>\<open>run_sweep\<close>\<close>

text \<open>
  C1: when the sweepable expands to the resolvers, the program resolves under each of
  them and no call of the run raises, \<^verbatim>\<open>run_sweep\<close> returns a list with one result per
  resolver, and the log shows where each comes from: the i-th result is what
  \<^verbatim>\<open>to_cirq_result\<close> returned for the i-th job result and the i-th resolver, the i-th
  job result is what \<^verbatim>\<open>results()\<close> returned for the i-th job, and the i-th job is what
  \<^verbatim>\<open>create_job\<close> returned for the circuit resolved with the i-th resolver.
\<close>

theorem run_sweep_results:
  assumes ps: "to_resolvers env params = Inr resolvers"
    and res: "\<forall>p \<in> set resolvers. \<exists>c. resolve_parameters env program p = Inr c"
    and run: "run_sweep env program params n st = (v, st')"
    and ok: "\<forall>ev \<in> set (new_calls st st'). raised ev = None"
  shows "\<exists>circuits jobs job_results out.
           v = Inr out \<and> length out = length resolvers \<and>
           map (resolve_parameters env program) resolvers = map Inr circuits \<and>
           length jobs = length resolvers \<and> length job_results = length resolvers \<and>
           new_calls st st' =
             created (self st) n circuits jobs @ fetched jobs job_results @
             converted env (self st) (zip job_results resolvers) out"
proof (cases v)
  case (Inr out)
  with run have "run_sweep env program params n st = (Inr out, st')" by simp
  then obtain ps' circuits jobs rs where
    d: "to_resolvers env params = Inr ps'"
    "map (resolve_parameters env program) ps' = map Inr circuits"
    "length jobs = length ps'" "length rs = length ps'" "length out = length ps'"
    "new_calls st st' =
       created (self st) n circuits jobs @ fetched jobs rs @
       converted env (self st) (zip rs ps') out"
    by (rule run_sweep_Inr)
  from d(1) ps have "ps' = resolvers" by simp
  with d Inr show ?thesis by blast
next
  case (Inl e)
  with run have "run_sweep env program params n st = (Inl e, st')" by simp
  then have False
  proof (cases rule: run_sweep_Inl)
    case sweep
    with ps show ?thesis by simp
  next
    case (resolve ps' pre p post circuits jobs)
    with ps have "resolvers = pre @ p # post" by simp
    then have "p \<in> set resolvers" by simp
    with res resolve(5) show ?thesis by auto
  next
    case (create ps' pre p post circuits jobs c)
    with ok show ?thesis by simp
  next
    case (fetch ps' circuits jobs pre j post rs)
    with ok show ?thesis by simp
  next
    case (conversion ps' circuits jobs rs pre rp post outs)
    with ok show ?thesis by simp
  qed
  then show ?thesis ..
qed

theorem run_sweep_results_witness:
  "\<exists>out. fst (run_sweep (example_env 10) 7 [1, 2, 3] 4 example_state) = Inr out \<and>
     length out = 3"
proof -
  have h1: "to_resolvers (example_env 10) [1, 2, 3] = Inr [1, 2, 3]"
    by (simp add: example_env_def)
  have h2: "\<forall>p \<in> set [1, 2, 3]. \<exists>c. resolve_parameters (example_env 10) 7 p = Inr c"
    by (simp add: example_env_def)
  have h4: "\<forall>ev \<in> set (new_calls example_state
      (snd (run_sweep (example_env 10) 7 [1, 2, 3] 4 example_state))). raised ev = None"
    unfolding example_run by (simp add: new_calls_def example_state_def)
  show ?thesis
    using run_sweep_results [OF h1 h2 surjective_pairing h4] by auto
qed

text \<open>
  C2: when the sweepable expands to the resolvers, the program resolves under each of
  them and no \<^verbatim>\<open>create_job\<close> raises, the \<^verbatim>\<open>create_job\<close> calls of the run are one per
  resolver, in the order of the sweep, each with the circuit resolved with its resolver,
  with the repetitions as given, whatever integer they are, and with the target of the
  sampler.
\<close>

theorem run_sweep_create_job_calls:
  assumes ps: "to_resolvers env params = Inr resolvers"
    and res: "\<forall>p \<in> set resolvers. \<exists>c. resolve_parameters env program p = Inr c"
    and run: "run_sweep env program params n st = (v, st')"
    and ok: "\<forall>ev \<in> set (new_calls st st'). is_CreateJob ev \<longrightarrow> raised ev = None"
  shows "\<exists>circuits jobs.
           map (resolve_parameters env program) resolvers = map Inr circuits \<and>
           length jobs = length resolvers \<and>
           filter is_CreateJob (new_calls st st') =
             map2 (\<lambda>c j. CreateJob (service (self st)) c n (target (self st)) (Inr j))
               circuits jobs"
proof -
  have "\<exists>circuits jobs.
           map (resolve_parameters env program) resolvers = map Inr circuits \<and>
           length jobs = length resolvers \<and>
           filter is_CreateJob (new_calls st st') = created (self st) n circuits jobs"
  proof (cases v)
    case (Inr out)
    with run have "run_sweep env program params n st = (Inr out, st')" by simp
    then obtain ps' circuits jobs rs where
      d: "to_resolvers env params = Inr ps'"
      "map (resolve_parameters env program) ps' = map Inr circuits"
      "length jobs = length ps'"
      "new_calls st st' =
         created (self st) n circuits jobs @ fetched jobs rs @
         converted env (self st) (zip rs ps') out"
      by (rule run_sweep_Inr)
    from d(1) ps have eq: "ps' = resolvers" by simp
    have "filter is_CreateJob (new_calls st st') = created (self st) n circuits jobs"
      unfolding d(4)
      by (simp add: filter_CreateJob_created filter_CreateJob_fetched
          filter_CreateJob_converted)
    with d(2,3) eq show ?thesis by blast
  next
    case (Inl e)
    with run have "run_sweep env program params n st = (Inl e, st')" by simp
    then show ?thesis
    proof (cases rule: run_sweep_Inl)
      case sweep
      with ps show ?thesis by simp
    next
      case (resolve ps' pre p post circuits jobs)
      with ps have "resolvers = pre @ p # post" by simp
      then have "p \<in> set resolvers" by simp
      with res resolve(5) show ?thesis by auto
    next
      case (create ps' pre p post circuits jobs c)
      with ok show ?thesis by simp
    next
      case (fetch ps' circuits jobs pre j post rs)
      from fetch(1) ps have eq: "ps' = resolvers" by simp
      have "filter is_CreateJob (new_calls st st') = created (self st) n circuits jobs"
        unfolding fetch(6) by (simp add: filter_CreateJob_created filter_CreateJob_fetched)
      with fetch(2,3) eq show ?thesis by blast
    next
      case (conversion ps' circuits jobs rs pre rp post outs)
      from conversion(1) ps have eq: "ps' = resolvers" by simp
      have "filter is_CreateJob (new_calls st st') = created (self st) n circuits jobs"
        unfolding conversion(7)
        by (simp add: filter_CreateJob_created filter_CreateJob_fetched
            filter_CreateJob_converted)
      with conversion(2,3) eq show ?thesis by blast
    qed
  qed
  then show ?thesis by (simp add: created_def)
qed

theorem run_sweep_create_job_calls_witness:
  "filter is_CreateJob (new_calls example_state
      (snd (run_sweep (example_env 10) 7 [1, 2, 3] 4 example_state))) =
   [CreateJob ''ionq'' 8 4 (Some ''qpu'') (Inr 0),
    CreateJob ''ionq'' 9 4 (Some ''qpu'') (Inr 1),
    CreateJob ''ionq'' 10 4 (Some ''qpu'') (Inr 2)]"
proof -
  have h1: "to_resolvers (example_env 10) [1, 2, 3] = Inr [1, 2, 3]"
    by (simp add: example_env_def)
  have h2: "\<forall>p \<in> set [1, 2, 3]. \<exists>c. resolve_parameters (example_env 10) 7 p = Inr c"
    by (simp add: example_env_def)
  have h4: "\<forall>ev \<in> set (new_calls example_state
      (snd (run_sweep (example_env 10) 7 [1, 2, 3] 4 example_state))).
      is_CreateJob ev \<longrightarrow> raised ev = None"
    unfolding example_run by (simp add: new_calls_def example_state_def)
  show ?thesis
    using run_sweep_create_job_calls [OF h1 h2 surjective_pairing h4]
    unfolding example_run by (simp add: new_calls_def example_state_def)
qed

text \<open>
  C3: the conversion of a QPU result does not depend on the seed of the sampler: from
  any state, two samplers with the same service and target and different seeds get the
  same output from the conversion and leave the same world and the same log; the states
  after differ in the sampler alone.
\<close>

theorem qpu_conversion_ignores_seed:
  assumes qpu: "is_QPUResult env result"
  shows "convert env (result, params) (st\<lparr>self := Sampler svc tgt sd2\<rparr>) =
           (fst (convert env (result, params) (st\<lparr>self := Sampler svc tgt sd1\<rparr>)),
            (snd (convert env (result, params) (st\<lparr>self := Sampler svc tgt sd1\<rparr>)))
              \<lparr>self := Sampler svc tgt sd2\<rparr>)"
  using qpu by (simp add: convert_def to_cirq_result_call_def split: prod.splits)

theorem qpu_conversion_ignores_seed_witness:
  "convert (example_env 10) ((QPUResult, 0), 1)
       (example_state\<lparr>self := Sampler ''ionq'' (Some ''qpu'') 5\<rparr>) =
     (Inr (0, 1, None),
      \<lparr>self = Sampler ''ionq'' (Some ''qpu'') 5, world = 0,
         calls = [ToCirqResult (QPUResult, 0) 1 None (Inr (0, 1, None))]\<rparr>)"
proof -
  have qpu: "is_QPUResult (example_env 10) (QPUResult, 0)" by (simp add: example_env_def)
  have one: "convert (example_env 10) ((QPUResult, 0), 1)
       (example_state\<lparr>self := Sampler ''ionq'' (Some ''qpu'') 11\<rparr>) =
     (Inr (0, 1, None),
      \<lparr>self = Sampler ''ionq'' (Some ''qpu'') 11, world = 0,
         calls = [ToCirqResult (QPUResult, 0) 1 None (Inr (0, 1, None))]\<rparr>)"
    by (simp add: convert_def to_cirq_result_call_def example_env_def example_state_def)
  show ?thesis
    using qpu_conversion_ignores_seed [OF qpu, where params = 1 and st = example_state
        and svc = "''ionq''" and tgt = "Some ''qpu''" and ?sd1.0 = 11 and ?sd2.0 = 5]
    unfolding one by simp
qed

text \<open>
  C5: a call of the run that raised (a \<^verbatim>\<open>create_job\<close>, a \<^verbatim>\<open>results()\<close>, and a
  conversion as well) ends the run with that same exception, and no list is returned.
\<close>

theorem run_sweep_propagates:
  assumes run: "run_sweep env program params n st = (v, st')"
    and ev: "ev \<in> set (new_calls st st')"
    and e: "raised ev = Some e"
  shows "v = Inl e \<and> (\<forall>out. v \<noteq> Inr out)"
proof -
  have "v = Inl e"
  proof (cases v)
    case (Inr out)
    with run have "run_sweep env program params n st = (Inr out, st')" by simp
    then obtain ps circuits jobs rs where
      "new_calls st st' =
         created (self st) n circuits jobs @ fetched jobs rs @
         converted env (self st) (zip rs ps) out"
      by (rule run_sweep_Inr)
    with ev have "raised ev = None"
      by (auto dest: raised_created raised_fetched raised_converted)
    with e show ?thesis by simp
  next
    case (Inl e')
    with run have "run_sweep env program params n st = (Inl e', st')" by simp
    then have "e = e'"
    proof (cases rule: run_sweep_Inl)
      case sweep
      with ev e show ?thesis by (simp add: new_calls_def)
    next
      case (resolve ps pre p post circuits jobs)
      with ev have "raised ev = None" by (auto dest: raised_created)
      with e show ?thesis by simp
    next
      case (create ps pre p post circuits jobs c)
      with ev e show ?thesis by (auto dest: raised_created)
    next
      case (fetch ps circuits jobs pre j post rs)
      with ev e show ?thesis by (auto dest: raised_created raised_fetched)
    next
      case (conversion ps circuits jobs rs pre rp post outs)
      with ev e show ?thesis by (auto dest: raised_created raised_fetched raised_converted)
    qed
    with Inl show ?thesis by simp
  qed
  then show ?thesis by simp
qed

theorem run_sweep_propagates_witness:
  "fst (run_sweep (example_env 1) 7 [1, 2, 3] 4 example_state) = Inl ''quota''"
proof -
  let ?ev = "CreateJob ''ionq'' (9::nat) 4 (Some ''qpu'') (Inl ''quota'') ::
    (string, nat, nat, result_class \<times> nat, nat, int, nat \<times> nat \<times> int option, string) call"
  have ev: "?ev \<in> set (new_calls example_state
      (snd (run_sweep (example_env 1) 7 [1, 2, 3] 4 example_state)))"
    unfolding example_run_quota by (simp add: new_calls_def example_state_def)
  have e: "raised ?ev = Some ''quota''" by simp
  show ?thesis
    using run_sweep_propagates [OF surjective_pairing ev e] by simp
qed



text \<open>
  C7: with the parameter resolution modelled from the spec and a sweepable that expands
  to the single empty resolver, the run makes one \<^verbatim>\<open>create_job\<close> call, and its circuit
  is the program as given.
\<close>

theorem empty_resolver_submits_program:
  assumes rp: "resolve_parameters env = cirq_resolve_parameters"
    and ps: "to_resolvers env params = Inr [Map.empty]"
    and run: "run_sweep env program params n st = (v, st')"
  shows "\<exists>ret. filter is_CreateJob (new_calls st st') =
           [CreateJob (service (self st)) program n (target (self st)) ret]"
proof -
  have one: "?thesis"
    if "filter is_CreateJob (new_calls st st') = created (self st) n circuits jobs"
      and "map (resolve_parameters env program) [Map.empty] = map Inr circuits"
      and "length jobs = Suc 0"
    for circuits jobs
    using that by (cases jobs) (auto simp: created_def rp cirq_resolve_parameters_empty)
  show ?thesis
  proof (cases v)
    case (Inr out)
    with run have "run_sweep env program params n st = (Inr out, st')" by simp
    then obtain ps' circuits jobs rs where
      d: "to_resolvers env params = Inr ps'"
      "map (resolve_parameters env program) ps' = map Inr circuits"
      "length jobs = length ps'"
      and log: "new_calls st st' =
         created (self st) n circuits jobs @ fetched jobs rs @
         converted env (self st) (zip rs ps') out"
      by (rule run_sweep_Inr)
    from d(1) ps have eq: "ps' = [Map.empty]" by simp
    have "filter is_CreateJob (new_calls st st') = created (self st) n circuits jobs"
      unfolding log
      by (simp add: filter_CreateJob_created filter_CreateJob_fetched
          filter_CreateJob_converted)
    from one [OF this] d(2,3) eq show ?thesis by simp
  next
    case (Inl e)
    with run have "run_sweep env program params n st = (Inl e, st')" by simp
    then show ?thesis
    proof (cases rule: run_sweep_Inl)
      case sweep
      with ps show ?thesis by simp
    next
      case (resolve ps' pre p post circuits jobs)
      then show ?thesis by (simp add: rp cirq_resolve_parameters_def)
    next
      case (create ps' pre p post circuits jobs c)
      from create(1,2) ps have "pre = []" "p = Map.empty"
        by (simp_all add: Cons_eq_append_conv)
      with create(3,4,5) have "circuits = []" "jobs = []" "c = program"
        by (simp_all add: rp cirq_resolve_parameters_empty)
      with create(6) show ?thesis by (simp add: created_def)
    next
      case (fetch ps' circuits jobs pre j post rs)
      from fetch(1) ps have eq: "ps' = [Map.empty]" by simp
      have "filter is_CreateJob (new_calls st st') = created (self st) n circuits jobs"
        unfolding fetch(6) by (simp add: filter_CreateJob_created filter_CreateJob_fetched)
      from one [OF this] fetch(2,3) eq show ?thesis by simp
    next
      case (conversion ps' circuits jobs rs pre rp' post outs)
      from conversion(1) ps have eq: "ps' = [Map.empty]" by simp
      have "filter is_CreateJob (new_calls st st') = created (self st) n circuits jobs"
        unfolding conversion(7)
        by (simp add: filter_CreateJob_created filter_CreateJob_fetched
            filter_CreateJob_converted)
      from one [OF this] conversion(2,3) eq show ?thesis by simp
    qed
  qed
qed

theorem empty_resolver_submits_program_witness:
  "\<exists>ret. filter is_CreateJob (new_calls circuit_state
      (snd (run_sweep circuit_env rx_circuit None 100 circuit_state))) =
    [CreateJob ''ionq'' rx_circuit 100 None ret]"
proof -
  have rp: "resolve_parameters circuit_env = cirq_resolve_parameters"
    by (simp add: circuit_env_def)
  have ps: "to_resolvers circuit_env None = Inr [Map.empty]"
    by (simp add: circuit_env_def)
  show ?thesis
    using empty_resolver_submits_program [OF rp ps surjective_pairing,
        where program = rx_circuit and n = 100 and st = circuit_state]
    by (simp add: circuit_state_def Sampler_def)
qed

text \<open>
  C8: a run leaves the three fields of the sampler as they were, and a sampler that
  \<^verbatim>\<open>__init__\<close> built still holds the service, the target and the seed it was given.
\<close>

theorem run_sweep_keeps_fields:
  "self (snd (run_sweep env program params n st)) = self st \<and>
   self (snd (run_sweep env program params n (st\<lparr>self := Sampler svc tgt sd\<rparr>))) =
     \<lparr>service = svc, target = tgt, seed = sd\<rparr>"
  by (simp add: run_sweep_self Sampler_def)

text \<open>
  C9: for a sweepable that expands to no resolver, \<^verbatim>\<open>run_sweep\<close> returns the empty list
  and leaves the state as it was: the log gets no call, the world is not touched.
\<close>

theorem run_sweep_no_resolvers:
  "to_resolvers env params = Inr [] \<Longrightarrow> run_sweep env program params n st = (Inr [], st)"
  by (simp add: run_sweep_def)

theorem run_sweep_no_resolvers_witness:
  "to_resolvers (example_env 10) [] = Inr [] \<and>
   run_sweep (example_env 10) 7 [] 4 example_state = (Inr [], example_state)"
proof -
  have h: "to_resolvers (example_env 10) [] = Inr []" by (simp add: example_env_def)
  show ?thesis using h run_sweep_no_resolvers [OF h, of 7 4 example_state] by simp
qed

text \<open>
  C10: the branch on the class of a result catches every result that is not a QPU
  result. The sampler raises nothing of its own: a run that ends with an exception got
  it from \<^verbatim>\<open>to_resolvers\<close>, from \<^verbatim>\<open>resolve_parameters\<close> or from a logged call. In a
  run that returns, every result that a job yielded and that is not a QPU result, of
  whatever class, was converted by a call that passes the seed of the sampler, and the
  output of that call is in the list returned. No conversion of such a result in the log
  of any run is without that seed.
\<close>

theorem run_sweep_catch_all:
  assumes run: "run_sweep env program params n st = (v, st')"
  shows "(\<forall>e. v = Inl e \<longrightarrow>
            to_resolvers env params = Inl e \<or>
            (\<exists>ps p. to_resolvers env params = Inr ps \<and> p \<in> set ps \<and>
               resolve_parameters env program p = Inl e) \<or>
            (\<exists>ev \<in> set (new_calls st st'). raised ev = Some e)) \<and>
         (\<forall>outs j r. v = Inr outs \<and> JobResults j (Inr r) \<in> set (new_calls st st') \<and>
            \<not> is_QPUResult env r \<longrightarrow>
            (\<exists>p out. ToCirqResult r p (Some (seed (self st))) (Inr out) \<in> set (new_calls st st') \<and>
               out \<in> set outs)) \<and>
         (\<forall>r p kw ret. ToCirqResult r p kw ret \<in> set (new_calls st st') \<and>
            \<not> is_QPUResult env r \<longrightarrow> kw = Some (seed (self st)))"
proof (intro conjI allI impI)
  fix e assume v: "v = Inl e"
  with run have "run_sweep env program params n st = (Inl e, st')" by simp
  then show "to_resolvers env params = Inl e \<or>
            (\<exists>ps p. to_resolvers env params = Inr ps \<and> p \<in> set ps \<and>
               resolve_parameters env program p = Inl e) \<or>
            (\<exists>ev \<in> set (new_calls st st'). raised ev = Some e)"
  proof (cases rule: run_sweep_Inl)
    case sweep
    then show ?thesis by simp
  next
    case (resolve ps pre p post circuits jobs)
    from resolve(2) have "p \<in> set ps" by simp
    with resolve(1,5) show ?thesis by blast
  next
    case (create ps pre p post circuits jobs c)
    have "\<exists>ev \<in> set (new_calls st st'). raised ev = Some e"
      unfolding create(6) by simp
    then show ?thesis by blast
  next
    case (fetch ps circuits jobs pre j post rs)
    have "\<exists>ev \<in> set (new_calls st st'). raised ev = Some e"
      unfolding fetch(6) by simp
    then show ?thesis by blast
  next
    case (conversion ps circuits jobs rs pre rp post outs)
    have "\<exists>ev \<in> set (new_calls st st'). raised ev = Some e"
      unfolding conversion(7) by simp
    then show ?thesis by blast
  qed
next
  fix outs j r
  assume a: "v = Inr outs \<and> JobResults j (Inr r) \<in> set (new_calls st st') \<and>
            \<not> is_QPUResult env r"
  with run have "run_sweep env program params n st = (Inr outs, st')" by simp
  then obtain ps circuits jobs rs where
    l: "length rs = length ps" "length outs = length ps"
    and log: "new_calls st st' =
       created (self st) n circuits jobs @ fetched jobs rs @
       converted env (self st) (zip rs ps) outs"
    by (rule run_sweep_Inr)
  from a have "JobResults j (Inr r) \<in> set (new_calls st st')" by simp
  then have "r \<in> set rs" unfolding log by (rule JobResults_logged)
  from converted_member [OF l(1) l(2) [symmetric] this,
      of env "self st" "created (self st) n circuits jobs @ fetched jobs rs"]
  obtain p out where
    "ToCirqResult r p (seed_kw env (self st) r) (Inr out) \<in>
       set ((created (self st) n circuits jobs @ fetched jobs rs) @
            converted env (self st) (zip rs ps) outs)" "out \<in> set outs"
    by blast
  with a log show "\<exists>p out. ToCirqResult r p (Some (seed (self st))) (Inr out) \<in>
      set (new_calls st st') \<and> out \<in> set outs"
    by (auto simp: seed_kw_def)
next
  fix r p kw ret
  assume a: "ToCirqResult r p kw ret \<in> set (new_calls st st') \<and> \<not> is_QPUResult env r"
  then have ev: "ToCirqResult r p kw ret \<in> set (new_calls st st')" by simp
  have "kw = seed_kw env (self st) r"
  proof (cases v)
    case (Inr out)
    with run have "run_sweep env program params n st = (Inr out, st')" by simp
    then obtain ps circuits jobs rs where
      "new_calls st st' =
         created (self st) n circuits jobs @ fetched jobs rs @
         converted env (self st) (zip rs ps) out"
      by (rule run_sweep_Inr)
    with ev show ?thesis
      by (auto simp: ToCirqResult_created ToCirqResult_fetched dest: ToCirqResult_converted)
  next
    case (Inl e)
    with run have "run_sweep env program params n st = (Inl e, st')" by simp
    then show ?thesis
    proof (cases rule: run_sweep_Inl)
      case sweep
      with ev show ?thesis by (simp add: new_calls_def)
    next
      case (resolve ps pre p post circuits jobs)
      with ev show ?thesis by (simp add: ToCirqResult_created)
    next
      case (create ps pre p post circuits jobs c)
      with ev show ?thesis by (simp add: ToCirqResult_created)
    next
      case (fetch ps circuits jobs pre j post rs)
      with ev show ?thesis by (simp add: ToCirqResult_created ToCirqResult_fetched)
    next
      case (conversion ps circuits jobs rs pre rp post outs)
      with ev show ?thesis
        by (auto simp: ToCirqResult_created ToCirqResult_fetched dest: ToCirqResult_converted)
    qed
  qed
  with a show "kw = Some (seed (self st))" by (simp add: seed_kw_def)
qed

theorem run_sweep_catch_all_witness:
  "(\<exists>p out. ToCirqResult (OtherResult, 2) p (Some 11) (Inr out) \<in>
       set (new_calls example_state
             (snd (run_sweep (example_env 10) 7 [1, 2, 3] 4 example_state))) \<and>
       out \<in> set [(0, 1, None), (1, 2, Some 11), (2, 3, Some 11)]) \<and>
   (\<exists>ev \<in> set (new_calls example_state
             (snd (run_sweep (example_env 1) 7 [1, 2, 3] 4 example_state))).
       raised ev = Some ''quota'')"
proof -
  have v: "fst (run_sweep (example_env 10) 7 [1, 2, 3] 4 example_state) =
      Inr [(0, 1, None), (1, 2, Some 11), (2, 3, Some 11)]"
    unfolding example_run by simp
  have ev: "JobResults 2 (Inr (OtherResult, 2)) \<in> set (new_calls example_state
      (snd (run_sweep (example_env 10) 7 [1, 2, 3] 4 example_state)))"
    unfolding example_run by (simp add: new_calls_def example_state_def)
  have nq: "\<not> is_QPUResult (example_env 10) (OtherResult, 2)"
    by (simp add: example_env_def)
  have sd: "seed (self example_state) = 11" by (simp add: example_state_def Sampler_def)
  have converted: "\<exists>p out. ToCirqResult (OtherResult, 2) p (Some 11) (Inr out) \<in>
       set (new_calls example_state
             (snd (run_sweep (example_env 10) 7 [1, 2, 3] 4 example_state))) \<and>
       out \<in> set [(0, 1, None), (1, 2, Some 11), (2, 3, Some 11)]"
    using run_sweep_catch_all [OF surjective_pairing, where env = "example_env 10"
        and program = 7 and params = "[1, 2, 3]" and n = 4 and st = example_state]
      v ev nq
    unfolding sd by blast
  have q: "fst (run_sweep (example_env 1) 7 [1, 2, 3] 4 example_state) = Inl ''quota''"
    unfolding example_run_quota by simp
  have r1: "to_resolvers (example_env 1) [1, 2, 3] \<noteq> Inl ''quota''"
    by (simp add: example_env_def)
  have r2: "\<not> (\<exists>ps p. to_resolvers (example_env 1) [1, 2, 3] = Inr ps \<and> p \<in> set ps \<and>
      resolve_parameters (example_env 1) 7 p = Inl ''quota'')"
    by (simp add: example_env_def)
  have raised: "\<exists>ev \<in> set (new_calls example_state
             (snd (run_sweep (example_env 1) 7 [1, 2, 3] 4 example_state))).
       raised ev = Some ''quota''"
    using run_sweep_catch_all [OF surjective_pairing, where env = "example_env 1"
        and program = 7 and params = "[1, 2, 3]" and n = 4 and st = example_state]
      q r1 r2
    by blast
  show ?thesis using converted raised by (rule conjI)
qed

end
